theory Spec2Isabelle
  imports Complex_Main
begin

section \<open>The search bar of quodlibet/qltk/searchbar.py\<close>

text \<open>
  The module wires a text entry with a history dropdown to the query parser, to GLib's
  main loop and to the saved-searches file. The embedding keeps the methods of
  \<open>SearchBarBox\<close> and \<open>LimitSearchBarBox\<close> as functions on an explicit widget state.
  What the module imports and does not define is an argument:
  \<^item> \<open>Query.is_parsable\<close> (quodlibet.parse) is the predicate \<open>P\<close> on texts;
  \<^item> \<open>limit_songs\<close> (quodlibet.util) is the function \<open>L\<close>.
  The toolkit objects the methods call (the entry, the combo box with its history, the
  GLib sources, the spin button) are small state components with the operations the
  methods use.
\<close>

subsection \<open>Text\<close>

text \<open>
  The methods work on \<open>entry.get_text().decode('utf-8')\<close>, a Python 2 \<open>unicode\<close> object:
  a sequence of code points. The entry only ever holds valid UTF-8, so the decoding
  does not fail and the state stores the decoded text.
\<close>

type_synonym unicode = "nat list"

text \<open>The code points that \<open>unicode.isspace\<close> accepts in Python 2.7.\<close>

definition py_isspace :: "nat \<Rightarrow> bool" where
  "py_isspace c \<longleftrightarrow>
     (9 \<le> c \<and> c \<le> 13) \<or> (28 \<le> c \<and> c \<le> 32) \<or> c = 133 \<or> c = 160 \<or>
     c = 5760 \<or> c = 6158 \<or> (8192 \<le> c \<and> c \<le> 8202) \<or> c = 8232 \<or> c = 8233 \<or>
     c = 8239 \<or> c = 8287 \<or> c = 12288"

text \<open>\<open>unicode.strip()\<close>: leading and trailing whitespace removed.\<close>

definition py_strip :: "unicode \<Rightarrow> unicode" where
  "py_strip t = rev (dropWhile py_isspace (rev (dropWhile py_isspace t)))"

subsection \<open>Widget state\<close>

text \<open>
  A GLib source attached by the widget: \<open>GLib.idle_add(self.emit, 'query-changed', text)\<close>
  is \<open>Idle_emit text\<close>; \<open>GLib.timeout_add(self.timeout, self.__filter_changed)\<close> is
  \<open>Timeout_filter due\<close>, with \<open>due\<close> the clock value (in ms) from which the main loop may
  run it.
\<close>

datatype source = Idle_emit unicode | Timeout_filter nat

text \<open>
  \<open>entry_text\<close> is the text of \<open>self.__entry\<close>; \<open>combo_active\<close> is what
  \<open>self.__combo.get_active()\<close> returns (\<open>-1\<close>: no row of the dropdown is selected);
  \<open>combo_model\<close> is the history shown by the dropdown and \<open>saved_queries\<close> the content of
  its backing file; \<open>sig_blocked\<close> counts the \<open>handler_block\<close> calls on \<open>self.__sig\<close> not
  yet unblocked; \<open>refill_id\<close> is \<open>self.__refill_id\<close>; \<open>eager_search\<close> is
  \<open>config.getboolean('settings', 'eager_search')\<close>; \<open>sources\<close>, \<open>next_source_id\<close> and
  \<open>clock\<close> are the main loop's view of the widget's sources; \<open>emitted\<close> lists the
  arguments of the \<open>query-changed\<close> emissions so far, oldest first.
\<close>

record searchbar =
  entry_text :: unicode
  combo_active :: int
  combo_model :: "unicode list"
  saved_queries :: "unicode list"
  sig_blocked :: nat
  refill_id :: "nat option"
  eager_search :: bool
  sources :: "(nat \<times> source) list"
  next_source_id :: nat
  clock :: nat
  emitted :: "unicode list"

text \<open>The class attribute \<open>timeout = 400\<close>.\<close>

definition timeout :: nat where
  "timeout = 400"

subsection \<open>GLib sources\<close>

text \<open>\<open>GLib.source_remove(id)\<close>: the source with that id, if any, is destroyed.\<close>

definition source_remove :: "nat \<Rightarrow> searchbar \<Rightarrow> searchbar" where
  "source_remove i s = s\<lparr>sources := filter (\<lambda>p. fst p \<noteq> i) (sources s)\<rparr>"

text \<open>Attaching a source gives it the next id of the main context.\<close>

definition source_attach :: "source \<Rightarrow> searchbar \<Rightarrow> nat \<times> searchbar" where
  "source_attach src s =
     (next_source_id s,
      s\<lparr>sources := sources s @ [(next_source_id s, src)],
        next_source_id := Suc (next_source_id s)\<rparr>)"

definition idle_add :: "unicode \<Rightarrow> searchbar \<Rightarrow> nat \<times> searchbar" where
  "idle_add text s = source_attach (Idle_emit text) s"

definition timeout_add :: "nat \<Rightarrow> searchbar \<Rightarrow> nat \<times> searchbar" where
  "timeout_add interval s = source_attach (Timeout_filter (clock s + interval)) s"

subsection \<open>SearchBarBox\<close>

text \<open>\<open>__init__\<close>: no pending source, an empty entry, the history loaded from the file.\<close>

definition searchbar_init :: "bool \<Rightarrow> unicode list \<Rightarrow> searchbar" where
  "searchbar_init eager history =
     \<lparr>entry_text = [], combo_active = - 1, combo_model = history,
      saved_queries = history, sig_blocked = 0, refill_id = None,
      eager_search = eager, sources = [], next_source_id = 1, clock = 0,
      emitted = []\<rparr>"

definition inhibit :: "searchbar \<Rightarrow> searchbar" where
  "inhibit s = s\<lparr>sig_blocked := Suc (sig_blocked s)\<rparr>"

definition uninhibit :: "searchbar \<Rightarrow> searchbar" where
  "uninhibit s = s\<lparr>sig_blocked := sig_blocked s - 1\<rparr>"

definition remove_timeout :: "searchbar \<Rightarrow> searchbar" where
  "remove_timeout s =
     (case refill_id s of
        None \<Rightarrow> s
      | Some i \<Rightarrow> (source_remove i s)\<lparr>refill_id := None\<rparr>)"

definition filter_changed :: "(unicode \<Rightarrow> bool) \<Rightarrow> searchbar \<Rightarrow> searchbar" where
  "filter_changed P s =
     (let s1 = remove_timeout s;
          text = entry_text s1
      in if P text
         then (case idle_add text s1 of (i, s2) \<Rightarrow> s2\<lparr>refill_id := Some i\<rparr>)
         else s1)"

definition text_changed :: "(unicode \<Rightarrow> bool) \<Rightarrow> searchbar \<Rightarrow> searchbar" where
  "text_changed P s =
     (if combo_active s \<noteq> - 1 then filter_changed P s
      else if \<not> eager_search s then s
      else (let s1 = remove_timeout s;
                text = entry_text s1
            in if P text
               then (case timeout_add timeout s1 of (i, s2) \<Rightarrow> s2\<lparr>refill_id := Some i\<rparr>)
               else s1))"

text \<open>
  The combo box emits \<open>text-changed\<close>; the connection \<open>self.__sig\<close> runs
  \<open>__text_changed\<close> unless it is blocked.
\<close>

definition combo_text_changed :: "(unicode \<Rightarrow> bool) \<Rightarrow> searchbar \<Rightarrow> searchbar" where
  "combo_text_changed P s = (if sig_blocked s = 0 then text_changed P s else s)"

text \<open>\<open>Gtk.Entry.set_text\<close>: the text is replaced and the change is signalled.\<close>

definition entry_set_text :: "(unicode \<Rightarrow> bool) \<Rightarrow> unicode \<Rightarrow> searchbar \<Rightarrow> searchbar" where
  "entry_set_text P text s = combo_text_changed P (s\<lparr>entry_text := text\<rparr>)"

definition set_text :: "(unicode \<Rightarrow> bool) \<Rightarrow> unicode \<Rightarrow> searchbar \<Rightarrow> searchbar" where
  "set_text P text s = uninhibit (entry_set_text P text (inhibit (remove_timeout s)))"

definition get_text :: "searchbar \<Rightarrow> unicode" where
  "get_text s = entry_text s"

definition changed :: "(unicode \<Rightarrow> bool) \<Rightarrow> searchbar \<Rightarrow> searchbar" where
  "changed P s = filter_changed P s"

text \<open>
  Modelled from the spec: \<open>ComboBoxEntrySave.prepend_text\<close> and
  \<open>ComboBoxEntrySave.write\<close> (quodlibet.qltk.cbes) are not part of the module. The first
  puts the text in front of the history of the dropdown, which makes the combo box
  signal a change; the second stores the history in the backing file.
\<close>

definition combo_prepend_text :: "(unicode \<Rightarrow> bool) \<Rightarrow> unicode \<Rightarrow> searchbar \<Rightarrow> searchbar" where
  "combo_prepend_text P text s =
     combo_text_changed P (s\<lparr>combo_model := text # combo_model s\<rparr>)"

definition combo_write :: "searchbar \<Rightarrow> searchbar" where
  "combo_write s = s\<lparr>saved_queries := combo_model s\<rparr>"

text \<open>
  The extra positional arguments a signal passes to a handler after the entry itself:
  none for \<open>activate\<close>, the event for \<open>focus-out-event\<close>.
\<close>

datatype gtk_arg = Gdk_event

definition save_search :: "(unicode \<Rightarrow> bool) \<Rightarrow> gtk_arg list \<Rightarrow> searchbar \<Rightarrow> searchbar" where
  "save_search P args s =
     (if args \<noteq> [] \<and> \<not> eager_search s then s
      else (let text = py_strip (entry_text s)
            in if text \<noteq> [] \<and> P text
               then uninhibit (combo_write (combo_prepend_text P text (inhibit s)))
               else s))"

subsection \<open>Signals and the main loop\<close>

text \<open>
  The handlers connected in \<open>__init__\<close>, in connection order: the combo's
  \<open>text-changed\<close> through \<open>self.__sig\<close>; the entry's \<open>clear\<close>, \<open>backspace\<close>, \<open>activate\<close>
  (two handlers) and \<open>focus-out-event\<close>.
\<close>

datatype entry_signal = Sig_text_changed | Sig_clear | Sig_backspace | Sig_activate | Sig_focus_out

fun handle_signal :: "(unicode \<Rightarrow> bool) \<Rightarrow> entry_signal \<Rightarrow> searchbar \<Rightarrow> searchbar" where
  "handle_signal P Sig_text_changed s = combo_text_changed P s"
| "handle_signal P Sig_clear s = filter_changed P s"
| "handle_signal P Sig_backspace s = text_changed P s"
| "handle_signal P Sig_activate s = save_search P [] (filter_changed P s)"
| "handle_signal P Sig_focus_out s = save_search P [Gdk_event] s"

text \<open>
  One iteration of the main loop on the source \<open>i\<close>. An idle source runs
  \<open>self.emit('query-changed', text)\<close>; a timeout source runs \<open>__filter_changed\<close> once its
  interval has passed. Both callbacks return \<open>None\<close>, so GLib destroys the source after
  the call.
\<close>

definition dispatch :: "(unicode \<Rightarrow> bool) \<Rightarrow> nat \<Rightarrow> searchbar \<Rightarrow> searchbar" where
  "dispatch P i s =
     (case map_of (sources s) i of
        None \<Rightarrow> s
      | Some (Idle_emit text) \<Rightarrow> source_remove i (s\<lparr>emitted := emitted s @ [text]\<rparr>)
      | Some (Timeout_filter due) \<Rightarrow>
          if clock s < due then s else source_remove i (filter_changed P s))"

text \<open>
  What happens to the widget: the user edits the entry or picks a row (the toolkit
  stores the text and the selection, then signals), a signal of the entry, a call of
  the public methods, a change of the configuration, time passing, the main loop
  running a source, the \<open>destroy\<close> signal of the widget (connected to
  \<open>__remove_timeout\<close>).
\<close>

datatype event =
    Edit unicode int
  | Signal entry_signal
  | Set_text unicode
  | Changed
  | Set_eager bool
  | Tick nat
  | Dispatch nat
  | Destroy

fun step :: "(unicode \<Rightarrow> bool) \<Rightarrow> event \<Rightarrow> searchbar \<Rightarrow> searchbar" where
  "step P (Edit text a) s = combo_text_changed P (s\<lparr>entry_text := text, combo_active := a\<rparr>)"
| "step P (Signal g) s = handle_signal P g s"
| "step P (Set_text text) s = set_text P text s"
| "step P Changed s = changed P s"
| "step P (Set_eager b) s = s\<lparr>eager_search := b\<rparr>"
| "step P (Tick d) s = s\<lparr>clock := clock s + d\<rparr>"
| "step P (Dispatch i) s = dispatch P i s"
| "step P Destroy s = remove_timeout s"

fun run :: "(unicode \<Rightarrow> bool) \<Rightarrow> event list \<Rightarrow> searchbar \<Rightarrow> searchbar" where
  "run P [] s = s"
| "run P (e # es) s = run P es (step P e s)"

subsection \<open>Invariants and traces\<close>

text \<open>Every pending idle source carries a text the parser accepts.\<close>

definition idle_parsable :: "(unicode \<Rightarrow> bool) \<Rightarrow> searchbar \<Rightarrow> bool" where
  "idle_parsable P s \<longleftrightarrow>
     list_all (\<lambda>p. case snd p of Idle_emit text \<Rightarrow> P text | Timeout_filter due \<Rightarrow> True) (sources s)"

text \<open>At most one source is pending, and \<open>self.__refill_id\<close> holds its id.\<close>

definition pending_tracked :: "searchbar \<Rightarrow> bool" where
  "pending_tracked s \<longleftrightarrow>
     (case sources s of
        [] \<Rightarrow> True
      | [p] \<Rightarrow> refill_id s = Some (fst p)
      | _ \<Rightarrow> False)"

text \<open>
  A burst of text changes: every edit happens less than \<open>timeout\<close> ms after the edit
  before it; between the edits time passes and the main loop runs sources. \<open>acc\<close> is
  the time since the last edit.
\<close>

fun spaced :: "nat \<Rightarrow> event list \<Rightarrow> bool" where
  "spaced acc [] = True"
| "spaced acc (Edit text a # es) = (acc < timeout \<and> spaced 0 es)"
| "spaced acc (Tick d # es) = spaced (acc + d) es"
| "spaced acc (Dispatch i # es) = spaced acc es"
| "spaced acc (_ # es) = False"

text \<open>No edit of the trace happens with a row of the dropdown selected.\<close>

fun unselected :: "event list \<Rightarrow> bool" where
  "unselected [] = True"
| "unselected (Edit text a # es) = (a = - 1 \<and> unselected es)"
| "unselected (_ # es) = unselected es"


text \<open>The text of the last edit of a trace, \<open>text\<close> when it has none.\<close>

fun last_text :: "unicode \<Rightarrow> event list \<Rightarrow> unicode" where
  "last_text text [] = text"
| "last_text text (Edit text' a # es) = last_text text' es"
| "last_text text (_ # es) = last_text text es"

text \<open>A stand-in for the parser in examples: a text with an opening parenthesis is rejected.\<close>

definition no_paren :: "unicode \<Rightarrow> bool" where
  "no_paren text \<longleftrightarrow> 40 \<notin> set text"

text \<open>
  What holds of the widget between two events: the source list is tracked, the
  \<open>text-changed\<close> connection is not blocked, and the ids in use are below the next id.
\<close>

definition well_formed :: "searchbar \<Rightarrow> bool" where
  "well_formed s \<longleftrightarrow>
     pending_tracked s \<and> sig_blocked s = 0 \<and>
     list_all (\<lambda>p. fst p < next_source_id s) (sources s)"

text \<open>
  The stages of a burst whose last edit, \<open>acc\<close> ms ago, left the text \<open>t\<close>, with \<open>base\<close>
  the emissions before the burst: nothing pending; the timer pending; the timer has
  run and the emission is pending; the emission has happened.
\<close>

definition burst_phase :: "nat \<Rightarrow> unicode \<Rightarrow> unicode list \<Rightarrow> searchbar \<Rightarrow> bool" where
  "burst_phase acc t base s \<longleftrightarrow>
     entry_text s = t \<and> eager_search s \<and> sig_blocked s = 0 \<and>
     ((sources s = [] \<and> emitted s = base) \<or>
      (\<exists>i due. sources s = [(i, Timeout_filter due)] \<and> refill_id s = Some i \<and>
         i < next_source_id s \<and> due + acc = clock s + timeout \<and> emitted s = base) \<or>
      (\<exists>i. sources s = [(i, Idle_emit t)] \<and> refill_id s = Some i \<and> timeout \<le> acc \<and>
         emitted s = base) \<or>
      (sources s = [] \<and> timeout \<le> acc \<and> emitted s = base @ [t]))"

text \<open>
  A burst with \<open>eager_search\<close> off: what was pending before it is still pending, or has
  run and left at most one emission after \<open>base\<close>.
\<close>

definition off_phase :: "unicode list \<Rightarrow> searchbar \<Rightarrow> bool" where
  "off_phase base s \<longleftrightarrow>
     \<not> eager_search s \<and> well_formed s \<and>
     (emitted s = base \<or> (sources s = [] \<and> (\<exists>x. emitted s = base @ [x])))"

subsection \<open>LimitSearchBarBox\<close>

text \<open>
  The \<open>Gtk.SpinButton\<close> of the limit widget: its adjustment holds a value of type
  \<open>double\<close> between \<open>lower\<close> and \<open>upper\<close>.
\<close>

record spin_button =
  numeric :: bool
  lower :: real
  upper :: real
  step_increment :: real
  page_increment :: real
  spin_value :: real

text \<open>GLib's \<open>CLAMP(x, low, high)\<close>.\<close>

definition clamp :: "real \<Rightarrow> real \<Rightarrow> real \<Rightarrow> real" where
  "clamp x low high = (if x > high then high else if x < low then low else x)"

definition spin_button_new :: spin_button where
  "spin_button_new =
     \<lparr>numeric = False, lower = 0, upper = 0, step_increment = 0, page_increment = 0,
      spin_value = 0\<rparr>"

definition set_numeric :: "bool \<Rightarrow> spin_button \<Rightarrow> spin_button" where
  "set_numeric b sb = sb\<lparr>numeric := b\<rparr>"

definition set_range :: "real \<Rightarrow> real \<Rightarrow> spin_button \<Rightarrow> spin_button" where
  "set_range low high sb =
     sb\<lparr>lower := low, upper := high, spin_value := clamp (spin_value sb) low high\<rparr>"

definition set_increments :: "real \<Rightarrow> real \<Rightarrow> spin_button \<Rightarrow> spin_button" where
  "set_increments st pg sb = sb\<lparr>step_increment := st, page_increment := pg\<rparr>"

text \<open>The toolkit stores a value the user spins to or types, clamped to the range.\<close>

definition set_value :: "real \<Rightarrow> spin_button \<Rightarrow> spin_button" where
  "set_value v sb = sb\<lparr>spin_value := clamp v (lower sb) (upper sb)\<rparr>"

text \<open>\<open>get_value_as_int\<close> rounds the value to the nearest integer, halves upwards.\<close>

definition get_value_as_int :: "spin_button \<Rightarrow> int" where
  "get_value_as_int sb =
     (if spin_value sb - of_int \<lfloor>spin_value sb\<rfloor> < 1 / 2 then \<lfloor>spin_value sb\<rfloor>
      else \<lceil>spin_value sb\<rceil>)"

text \<open>
  \<open>LimitSearchBarBox.Limit\<close>: the spin button \<open>self.__limit\<close>, the state of the check
  button \<open>self.__weight\<close>, and the visibility of the box as the toolkit keeps it.
\<close>

record limit_box =
  spin :: spin_button
  weight_active :: bool
  no_show_all :: bool
  limit_visible :: bool

definition limit_box_init :: limit_box where
  "limit_box_init =
     \<lparr>spin = set_increments 5 100 (set_range 0 9999 (set_numeric True spin_button_new)),
      weight_active = False, no_show_all = False, limit_visible = False\<rparr>"

definition limit_value :: "limit_box \<Rightarrow> int" where
  "limit_value w = get_value_as_int (spin w)"

definition weighted :: "limit_box \<Rightarrow> bool" where
  "weighted w = weight_active w"

text \<open>The subclass: the search bar and the limit widget packed after it.\<close>

record limit_searchbar =
  bar :: searchbar
  limit_w :: limit_box

definition limit_searchbar_init :: "bool \<Rightarrow> bool \<Rightarrow> unicode list \<Rightarrow> limit_searchbar" where
  "limit_searchbar_init show_limit eager history =
     \<lparr>bar = searchbar_init eager history,
      limit_w = limit_box_init\<lparr>no_show_all := \<not> show_limit\<rparr>\<rparr>"

definition limit_changed :: "(unicode \<Rightarrow> bool) \<Rightarrow> limit_searchbar \<Rightarrow> limit_searchbar" where
  "limit_changed P b = b\<lparr>bar := changed P (bar b)\<rparr>"

definition limit :: "('song list \<Rightarrow> int \<Rightarrow> bool \<Rightarrow> 'song list) \<Rightarrow> limit_searchbar \<Rightarrow> 'song list \<Rightarrow> 'song list" where
  "limit L b songs =
     (if limit_visible (limit_w b)
      then L songs (limit_value (limit_w b)) (weighted (limit_w b))
      else songs)"

definition toggle_limit_widgets :: "(unicode \<Rightarrow> bool) \<Rightarrow> bool \<Rightarrow> limit_searchbar \<Rightarrow> limit_searchbar" where
  "toggle_limit_widgets P button_active b =
     (let b1 = (if button_active then b\<lparr>limit_w := (limit_w b)\<lparr>limit_visible := True\<rparr>\<rparr>
                else b\<lparr>limit_w := (limit_w b)\<lparr>limit_visible := False\<rparr>\<rparr>)
      in b1\<lparr>bar := changed P (bar b1)\<rparr>)"

text \<open>
  What happens to the limit widget: the user spins or types a value (the spin button
  signals \<open>value-changed\<close> when the stored value changes), toggles the weight check
  button, a toggle button is connected to \<open>toggle_limit_widgets\<close>, the window calls
  \<open>show_all\<close>; and the events of the search bar itself.
\<close>

datatype limit_event =
    Spin_input real
  | Weight_toggled
  | Toggle_limit bool
  | Show_all
  | Bar_event event

fun limit_step :: "(unicode \<Rightarrow> bool) \<Rightarrow> limit_event \<Rightarrow> limit_searchbar \<Rightarrow> limit_searchbar" where
  "limit_step P (Spin_input v) b =
     (let sb = set_value v (spin (limit_w b));
          b1 = b\<lparr>limit_w := (limit_w b)\<lparr>spin := sb\<rparr>\<rparr>
      in if spin_value sb \<noteq> spin_value (spin (limit_w b)) then limit_changed P b1 else b1)"
| "limit_step P Weight_toggled b =
     limit_changed P (b\<lparr>limit_w := (limit_w b)\<lparr>weight_active := \<not> weight_active (limit_w b)\<rparr>\<rparr>)"
| "limit_step P (Toggle_limit button_active) b = toggle_limit_widgets P button_active b"
| "limit_step P Show_all b =
     (if no_show_all (limit_w b) then b
      else b\<lparr>limit_w := (limit_w b)\<lparr>limit_visible := True\<rparr>\<rparr>)"
| "limit_step P (Bar_event e) b = b\<lparr>bar := step P e (bar b)\<rparr>"

fun limit_run :: "(unicode \<Rightarrow> bool) \<Rightarrow> limit_event list \<Rightarrow> limit_searchbar \<Rightarrow> limit_searchbar" where
  "limit_run P [] b = b"
| "limit_run P (e # es) b = limit_run P es (limit_step P e b)"

text \<open>A stand-in for \<open>limit_songs\<close> in examples: the first songs up to the count.\<close>

definition take_songs :: "'song list \<Rightarrow> int \<Rightarrow> bool \<Rightarrow> 'song list" where
  "take_songs songs n w = take (nat n) songs"

subsection \<open>Auxiliary predicates\<close>

text \<open>The pending idle sources and the past emissions all carry accepted texts.\<close>

definition sound :: "(unicode \<Rightarrow> bool) \<Rightarrow> searchbar \<Rightarrow> bool" where
  "sound P s \<longleftrightarrow> idle_parsable P s \<and> list_all P (emitted s)"

text \<open>From \<open>s\<close> to \<open>s'\<close> no source was attached.\<close>

definition quiet :: "searchbar \<Rightarrow> searchbar \<Rightarrow> bool" where
  "quiet s s' \<longleftrightarrow> next_source_id s' = next_source_id s \<and> set (sources s') \<subseteq> set (sources s)"

text \<open>The spin button as \<open>Limit.__init__\<close> configures it, with its value in the range.\<close>

definition spin_ok :: "spin_button \<Rightarrow> bool" where
  "spin_ok sb \<longleftrightarrow>
     numeric sb \<and> lower sb = 0 \<and> upper sb = 9999 \<and> 0 \<le> spin_value sb \<and> spin_value sb \<le> 9999"

text \<open>Example states: a fresh search bar whose entry holds \<open>(\<close>, and one holding \<open> a \<close>.\<close>

definition typed_paren :: "bool \<Rightarrow> searchbar" where
  "typed_paren eager = (searchbar_init eager [])\<lparr>entry_text := [40]\<rparr>"

definition typed_a :: "bool \<Rightarrow> searchbar" where
  "typed_a eager = (searchbar_init eager [])\<lparr>entry_text := [32, 97, 32]\<rparr>"

section \<open>Properties\<close>

subsection \<open>Unfolded forms and invariants\<close>

lemmas glib_defs = source_remove_def source_attach_def idle_add_def timeout_add_def

lemma emitted_remove_timeout [simp]: "emitted (remove_timeout s) = emitted s"
  by (simp add: remove_timeout_def source_remove_def split: option.splits)

lemma entry_text_remove_timeout [simp]: "entry_text (remove_timeout s) = entry_text s"
  by (simp add: remove_timeout_def source_remove_def split: option.splits)

lemma next_id_remove_timeout [simp]: "next_source_id (remove_timeout s) = next_source_id s"
  by (simp add: remove_timeout_def source_remove_def split: option.splits)

lemma clock_remove_timeout [simp]: "clock (remove_timeout s) = clock s"
  by (simp add: remove_timeout_def source_remove_def split: option.splits)

lemma refill_remove_timeout [simp]: "refill_id (remove_timeout s) = None"
  by (simp add: remove_timeout_def source_remove_def split: option.splits)

lemma sources_remove_timeout:
  "sources (remove_timeout s) =
     (case refill_id s of None \<Rightarrow> sources s | Some i \<Rightarrow> filter (\<lambda>p. fst p \<noteq> i) (sources s))"
  by (simp add: remove_timeout_def source_remove_def split: option.splits)

lemma sources_remove_timeout_subset: "set (sources (remove_timeout s)) \<subseteq> set (sources s)"
  by (auto simp: sources_remove_timeout split: option.splits)

lemma filter_changed_unfold:
  "filter_changed P s =
     (if P (entry_text s)
      then (remove_timeout s)\<lparr>sources := sources (remove_timeout s) @ [(next_source_id s, Idle_emit (entry_text s))],
             next_source_id := Suc (next_source_id s), refill_id := Some (next_source_id s)\<rparr>
      else remove_timeout s)"
  by (simp add: filter_changed_def glib_defs Let_def)

lemma text_changed_unfold:
  "text_changed P s =
     (if combo_active s \<noteq> - 1 then filter_changed P s
      else if \<not> eager_search s then s
      else if P (entry_text s)
      then (remove_timeout s)\<lparr>sources := sources (remove_timeout s) @ [(next_source_id s, Timeout_filter (clock s + timeout))],
             next_source_id := Suc (next_source_id s), refill_id := Some (next_source_id s)\<rparr>
      else remove_timeout s)"
  by (simp add: text_changed_def glib_defs Let_def)

lemma set_text_unfold:
  "set_text P text s = (remove_timeout s)\<lparr>entry_text := text\<rparr>"
  by (simp add: set_text_def uninhibit_def entry_set_text_def inhibit_def combo_text_changed_def)

lemma save_search_unfold:
  "save_search P args s =
     (if args \<noteq> [] \<and> \<not> eager_search s then s
      else if py_strip (entry_text s) \<noteq> [] \<and> P (py_strip (entry_text s))
      then s\<lparr>combo_model := py_strip (entry_text s) # combo_model s,
             saved_queries := py_strip (entry_text s) # combo_model s\<rparr>
      else s)"
  by (simp add: save_search_def Let_def uninhibit_def combo_write_def combo_prepend_text_def
      inhibit_def combo_text_changed_def)

lemma dispatch_unfold:
  "dispatch P i s =
     (case map_of (sources s) i of
        None \<Rightarrow> s
      | Some (Idle_emit text) \<Rightarrow> s\<lparr>emitted := emitted s @ [text], sources := filter (\<lambda>p. fst p \<noteq> i) (sources s)\<rparr>
      | Some (Timeout_filter due) \<Rightarrow>
          if clock s < due then s
          else (filter_changed P s)\<lparr>sources := filter (\<lambda>p. fst p \<noteq> i) (sources (filter_changed P s))\<rparr>)"
  by (simp add: dispatch_def source_remove_def split: option.splits source.splits)

lemma idle_parsable_iff:
  "idle_parsable P s \<longleftrightarrow> (\<forall>i text. (i, Idle_emit text) \<in> set (sources s) \<longrightarrow> P text)"
  by (fastforce simp: idle_parsable_def list_all_iff split: source.splits)

lemma sound_remove_timeout: "sound P s \<Longrightarrow> sound P (remove_timeout s)"
  using sources_remove_timeout_subset [of s]
  by (auto simp: sound_def idle_parsable_iff)

lemma sound_filter_changed: "sound P s \<Longrightarrow> sound P (filter_changed P s)"
  using sound_remove_timeout [of P s]
  by (auto simp: filter_changed_unfold sound_def idle_parsable_iff)

lemma sound_text_changed: "sound P s \<Longrightarrow> sound P (text_changed P s)"
  using sound_remove_timeout [of P s] sound_filter_changed [of P s]
  by (auto simp: text_changed_unfold sound_def idle_parsable_iff)

lemma sound_combo_text_changed: "sound P s \<Longrightarrow> sound P (combo_text_changed P s)"
  by (simp add: combo_text_changed_def sound_text_changed)

lemma sound_save_search: "sound P s \<Longrightarrow> sound P (save_search P args s)"
  by (simp add: save_search_unfold sound_def idle_parsable_def)

lemma sound_set_text: "sound P s \<Longrightarrow> sound P (set_text P text s)"
  using sound_remove_timeout [of P s]
  by (simp add: set_text_unfold sound_def idle_parsable_def)

lemma sound_dispatch: "sound P s \<Longrightarrow> sound P (dispatch P i s)"
proof (cases "map_of (sources s) i")
  case None
  assume "sound P s"
  with None show ?thesis by (simp add: dispatch_unfold)
next
  case (Some src)
  assume s: "sound P s"
  from Some have mem: "(i, src) \<in> set (sources s)" by (rule map_of_SomeD)
  show ?thesis
  proof (cases src)
    case (Idle_emit q)
    with mem s have "P q" by (auto simp: sound_def idle_parsable_iff)
    with s Some Idle_emit show ?thesis
      by (auto simp: dispatch_unfold sound_def idle_parsable_iff)
  next
    case (Timeout_filter due)
    from s have "sound P (filter_changed P s)" by (rule sound_filter_changed)
    with s Some Timeout_filter show ?thesis
      by (auto simp: dispatch_unfold sound_def idle_parsable_iff)
  qed
qed

lemma sound_step: "sound P s \<Longrightarrow> sound P (step P e s)"
proof (cases e)
  case (Edit q a)
  assume "sound P s"
  then have "sound P (s\<lparr>entry_text := q, combo_active := a\<rparr>)"
    by (simp add: sound_def idle_parsable_def)
  then show ?thesis unfolding Edit step.simps by (rule sound_combo_text_changed)
next
  case (Signal g)
  assume "sound P s"
  then show ?thesis unfolding Signal
    by (cases g) (simp_all add: sound_combo_text_changed sound_filter_changed
        sound_text_changed sound_save_search)
next
  case (Set_eager b)
  assume "sound P s"
  then show ?thesis unfolding Set_eager by (simp add: sound_def idle_parsable_def)
next
  case (Tick d)
  assume "sound P s"
  then show ?thesis unfolding Tick by (simp add: sound_def idle_parsable_def)
qed (simp_all add: sound_set_text changed_def sound_filter_changed sound_dispatch
    sound_remove_timeout)

lemma sound_run: "sound P s \<Longrightarrow> sound P (run P es s)"
  by (induction es arbitrary: s) (simp_all add: sound_step)

lemma sound_init: "sound P (searchbar_init e h)"
  by (simp add: sound_def idle_parsable_def searchbar_init_def)

lemma filter_changed_rejected:
  "\<not> P (entry_text s) \<Longrightarrow> filter_changed P s = remove_timeout s"
  by (simp add: filter_changed_unfold)

lemma text_changed_rejected:
  "\<not> P (entry_text s) \<Longrightarrow> text_changed P s = remove_timeout s \<or> text_changed P s = s"
  by (simp add: text_changed_unfold filter_changed_unfold)

lemma pending_tracked_iff:
  "pending_tracked s \<longleftrightarrow> sources s = [] \<or> (\<exists>p. sources s = [p] \<and> refill_id s = Some (fst p))"
  by (auto simp: pending_tracked_def split: list.splits)

lemma tracked_remove_timeout: "pending_tracked s \<Longrightarrow> sources (remove_timeout s) = []"
  by (auto simp: pending_tracked_iff sources_remove_timeout split: option.splits)

lemma sig_blocked_remove_timeout [simp]: "sig_blocked (remove_timeout s) = sig_blocked s"
  by (simp add: remove_timeout_def source_remove_def split: option.splits)

lemma eager_remove_timeout [simp]: "eager_search (remove_timeout s) = eager_search s"
  by (simp add: remove_timeout_def source_remove_def split: option.splits)

lemma wf_remove_timeout: "well_formed s \<Longrightarrow> well_formed (remove_timeout s)"
  by (simp add: well_formed_def tracked_remove_timeout pending_tracked_iff)

lemma wf_filter_changed: "well_formed s \<Longrightarrow> well_formed (filter_changed P s)"
  using wf_remove_timeout [of s]
  by (simp add: filter_changed_unfold well_formed_def tracked_remove_timeout pending_tracked_iff)

lemma wf_text_changed: "well_formed s \<Longrightarrow> well_formed (text_changed P s)"
  using wf_remove_timeout [of s] wf_filter_changed [of s P]
  by (simp add: text_changed_unfold well_formed_def tracked_remove_timeout pending_tracked_iff)

lemma wf_combo_text_changed: "well_formed s \<Longrightarrow> well_formed (combo_text_changed P s)"
  by (simp add: combo_text_changed_def wf_text_changed)

lemma wf_save_search: "well_formed s \<Longrightarrow> well_formed (save_search P args s)"
  by (simp add: save_search_unfold well_formed_def pending_tracked_iff)

lemma wf_set_text: "well_formed s \<Longrightarrow> well_formed (set_text P t s)"
  using wf_remove_timeout [of s]
  by (simp add: set_text_unfold well_formed_def pending_tracked_iff)

lemma wf_source_removed:
  "well_formed s \<Longrightarrow> well_formed (s\<lparr>sources := filter (\<lambda>p. fst p \<noteq> i) (sources s)\<rparr>)"
proof -
  assume wf: "well_formed s"
  then consider "sources s = []" | p where "sources s = [p]" "refill_id s = Some (fst p)"
    by (auto simp: well_formed_def pending_tracked_iff)
  then show ?thesis
  proof cases
    case 1
    with wf show ?thesis by (simp add: well_formed_def pending_tracked_iff)
  next
    case 2
    with wf show ?thesis by (cases "fst p = i") (simp_all add: well_formed_def pending_tracked_iff)
  qed
qed

lemma wf_dispatch: "well_formed s \<Longrightarrow> well_formed (dispatch P i s)"
proof -
  assume wf: "well_formed s"
  have a: "well_formed (s\<lparr>emitted := emitted s @ [q]\<rparr>)" for q
    using wf by (simp add: well_formed_def pending_tracked_iff)
  have b: "well_formed (source_remove i (s\<lparr>emitted := emitted s @ [q]\<rparr>))" for q
    unfolding source_remove_def using wf_source_removed [OF a] by simp
  have c: "well_formed (source_remove i (filter_changed P s))"
    unfolding source_remove_def using wf_source_removed [OF wf_filter_changed [OF wf]] by simp
  show ?thesis
    using wf b c by (simp add: dispatch_def split: option.splits source.splits)
qed

lemma wf_step: "well_formed s \<Longrightarrow> well_formed (step P e s)"
proof (cases e)
  case (Edit q a)
  assume "well_formed s"
  then have "well_formed (s\<lparr>entry_text := q, combo_active := a\<rparr>)"
    by (simp add: well_formed_def pending_tracked_iff)
  then show ?thesis unfolding Edit step.simps by (rule wf_combo_text_changed)
next
  case (Signal g)
  assume "well_formed s"
  then show ?thesis unfolding Signal
    by (cases g) (simp_all add: wf_combo_text_changed wf_filter_changed
        wf_text_changed wf_save_search)
next
  case (Set_eager b)
  assume "well_formed s"
  then show ?thesis unfolding Set_eager by (simp add: well_formed_def pending_tracked_iff)
next
  case (Tick d)
  assume "well_formed s"
  then show ?thesis unfolding Tick by (simp add: well_formed_def pending_tracked_iff)
qed (simp_all add: wf_set_text changed_def wf_filter_changed wf_dispatch wf_remove_timeout)

lemma wf_run: "well_formed s \<Longrightarrow> well_formed (run P es s)"
  by (induction es arbitrary: s) (simp_all add: wf_step)

lemma wf_init: "well_formed (searchbar_init e h)"
  by (simp add: well_formed_def pending_tracked_def searchbar_init_def)

lemma phase_tick: "burst_phase acc t base s \<Longrightarrow> burst_phase (acc + d) t base (step P (Tick d) s)"
  by (auto simp: burst_phase_def)

lemma phase_edit:
  assumes "burst_phase acc t base s" and "acc < timeout"
  shows "burst_phase 0 t' base (step P (Edit t' (- 1)) s)"
proof -
  let ?s = "s\<lparr>entry_text := t', combo_active := - 1\<rparr>"
  from assms have src: "sources (remove_timeout ?s) = []"
    by (auto simp: burst_phase_def sources_remove_timeout split: option.splits)
  from assms have em: "emitted s = base"
    by (auto simp: burst_phase_def)
  from assms have c: "eager_search s" "sig_blocked s = 0"
    by (auto simp: burst_phase_def)
  show ?thesis
    using src em c by (simp add: combo_text_changed_def text_changed_unfold burst_phase_def)
qed

lemma phase_dispatch:
  assumes "burst_phase acc t base s"
  shows "burst_phase acc t base (step P (Dispatch i) s)"
proof -
  from assms have c: "entry_text s = t" "eager_search s" "sig_blocked s = 0"
    by (auto simp: burst_phase_def)
  from assms consider
      (idle) "sources s = []"
    | (timer) j due where "sources s = [(j, Timeout_filter due)]" "refill_id s = Some j"
        "j < next_source_id s" "due + acc = clock s + timeout" "emitted s = base"
    | (emit) j where "sources s = [(j, Idle_emit t)]" "refill_id s = Some j" "timeout \<le> acc"
        "emitted s = base"
    by (auto simp: burst_phase_def)
  then show ?thesis
  proof cases
    case idle
    then have "dispatch P i s = s" by (simp add: dispatch_def)
    with assms show ?thesis by simp
  next
    case timer
    show ?thesis
    proof (cases "i = j \<and> due \<le> clock s")
      case False
      with timer have "dispatch P i s = s" by (auto simp: dispatch_def)
      with assms show ?thesis by simp
    next
      case True
      with timer have late: "timeout \<le> acc" by simp
      from timer have rm: "sources (remove_timeout s) = []"
        by (simp add: sources_remove_timeout)
      from True timer have d: "dispatch P i s = source_remove j (filter_changed P s)"
        by (simp add: dispatch_def)
      show ?thesis
        using timer c late rm unfolding d step.simps
        by (simp add: source_remove_def filter_changed_unfold burst_phase_def)
    qed
  next
    case emit
    show ?thesis
    proof (cases "i = j")
      case False
      with emit have "dispatch P i s = s" by (simp add: dispatch_def)
      with assms show ?thesis by simp
    next
      case True
      with emit c show ?thesis
        by (simp add: dispatch_def source_remove_def burst_phase_def)
    qed
  qed
qed

lemma burst_run:
  "spaced acc es \<Longrightarrow> unselected es \<Longrightarrow> burst_phase acc t base s \<Longrightarrow>
   \<exists>acc'. burst_phase acc' (last_text t es) base (run P es s)"
proof (induction acc es arbitrary: t s rule: spaced.induct)
  case (1 acc)
  then show ?case by auto
next
  case (2 acc q a es)
  then have "burst_phase 0 q base (step P (Edit q (- 1)) s)"
    using phase_edit by simp
  with 2 show ?case by simp
next
  case (3 acc d es)
  then have "burst_phase (acc + d) t base (step P (Tick d) s)"
    using phase_tick by blast
  with 3 show ?case by simp
next
  case (4 acc i es)
  then have "burst_phase acc t base (step P (Dispatch i) s)"
    using phase_dispatch by blast
  with 4 show ?case by simp
qed simp_all

lemma phase_emitted:
  "burst_phase acc t base s \<Longrightarrow> emitted s = base \<or> emitted s = base @ [t]"
  by (auto simp: burst_phase_def)

lemma burst_first:
  assumes "well_formed s" and "eager_search s"
  shows "burst_phase 0 t (emitted s) (step P (Edit t (- 1)) s)"
proof -
  let ?s = "s\<lparr>entry_text := t, combo_active := - 1\<rparr>"
  from assms have "pending_tracked ?s" by (simp add: well_formed_def pending_tracked_iff)
  then have "sources (remove_timeout ?s) = []" by (rule tracked_remove_timeout)
  with assms show ?thesis
    by (simp add: combo_text_changed_def text_changed_unfold burst_phase_def well_formed_def)
qed

lemma burst_emits_once:
  assumes "well_formed s" and "eager_search s" and "spaced 0 es" and "unselected es"
  shows "emitted (run P (Edit t (- 1) # es) s) = emitted s \<or>
         emitted (run P (Edit t (- 1) # es) s) = emitted s @ [last_text t es]"
proof -
  from burst_run [OF assms(3,4) burst_first [OF assms(1,2)]]
  obtain acc' where "burst_phase acc' (last_text t es) (emitted s) (run P es (step P (Edit t (- 1)) s))"
    by blast
  then show ?thesis using phase_emitted by fastforce
qed

lemma clamp_range: "low \<le> high \<Longrightarrow> low \<le> clamp x low high \<and> clamp x low high \<le> high"
  by (simp add: clamp_def)

lemma spin_ok_init: "spin_ok (spin limit_box_init)"
  by (simp add: spin_ok_def limit_box_init_def set_increments_def set_range_def set_numeric_def
      spin_button_new_def clamp_def)

lemma spin_ok_set_value: "spin_ok sb \<Longrightarrow> spin_ok (set_value v sb)"
  by (simp add: spin_ok_def set_value_def clamp_def)

lemma spin_ok_int: "spin_ok sb \<Longrightarrow> 0 \<le> get_value_as_int sb \<and> get_value_as_int sb \<le> 9999"
proof -
  assume "spin_ok sb"
  then have v: "0 \<le> spin_value sb" "spin_value sb \<le> 9999" by (simp_all add: spin_ok_def)
  from v have "0 \<le> \<lfloor>spin_value sb\<rfloor>" "\<lceil>spin_value sb\<rceil> \<le> 9999"
    by (simp_all add: ceiling_le_iff)
  moreover have "\<lfloor>spin_value sb\<rfloor> \<le> \<lceil>spin_value sb\<rceil>" by (rule floor_le_ceiling)
  ultimately show ?thesis by (simp add: get_value_as_int_def)
qed

lemma spin_ok_step: "spin_ok (spin (limit_w b)) \<Longrightarrow> spin_ok (spin (limit_w (limit_step P e b)))"
  by (cases e) (simp_all add: Let_def limit_changed_def toggle_limit_widgets_def spin_ok_set_value)

lemma spin_ok_run: "spin_ok (spin (limit_w b)) \<Longrightarrow> spin_ok (spin (limit_w (limit_run P es b)))"
  by (induction es arbitrary: b) (simp_all add: spin_ok_step)

lemma well_formed_reachable: "well_formed (run P es (searchbar_init e h))"
  by (rule wf_run [OF wf_init])

lemma entry_text_filter_changed [simp]: "entry_text (filter_changed P s) = entry_text s"
  by (simp add: filter_changed_unfold)

lemma entry_text_text_changed [simp]: "entry_text (text_changed P s) = entry_text s"
  by (simp add: text_changed_unfold)

lemma entry_text_combo_text_changed [simp]: "entry_text (combo_text_changed P s) = entry_text s"
  by (simp add: combo_text_changed_def)

lemma entry_text_save_search [simp]: "entry_text (save_search P args s) = entry_text s"
  by (simp add: save_search_unfold)

lemma sources_save_search [simp]: "sources (save_search P args s) = sources s"
  by (simp add: save_search_unfold)

lemma next_id_save_search [simp]: "next_source_id (save_search P args s) = next_source_id s"
  by (simp add: save_search_unfold)

lemma quiet_refl: "quiet s s"
  by (simp add: quiet_def)

lemma quiet_remove_timeout: "quiet s (remove_timeout s)"
  by (simp add: quiet_def sources_remove_timeout_subset)

lemma quiet_filter_changed: "\<not> P (entry_text s) \<Longrightarrow> quiet s (filter_changed P s)"
  by (simp add: filter_changed_rejected quiet_remove_timeout)

lemma quiet_text_changed: "\<not> P (entry_text s) \<Longrightarrow> quiet s (text_changed P s)"
  using text_changed_rejected [of P s] quiet_remove_timeout [of s] quiet_refl [of s] by auto

lemma quiet_combo_text_changed: "\<not> P (entry_text s) \<Longrightarrow> quiet s (combo_text_changed P s)"
  by (simp add: combo_text_changed_def quiet_text_changed quiet_refl)

lemma quiet_dispatch: "\<not> P (entry_text s) \<Longrightarrow> quiet s (dispatch P i s)"
  using quiet_filter_changed [of P s]
  by (auto simp: dispatch_unfold quiet_def split: option.splits source.splits)

lemma entry_text_dispatch [simp]: "entry_text (dispatch P i s) = entry_text s"
  by (simp add: dispatch_unfold split: option.splits source.splits)

lemma entry_text_step:
  "entry_text (step P ev s) = (case ev of Edit q a \<Rightarrow> q | Set_text q \<Rightarrow> q | _ \<Rightarrow> entry_text s)"
proof (cases ev)
  case (Signal g)
  then show ?thesis by (cases g) simp_all
qed (simp_all add: set_text_unfold changed_def)

lemma quiet_step: "\<not> P (entry_text (step P ev s)) \<Longrightarrow> quiet s (step P ev s)"
proof (cases ev)
  case (Edit q a)
  assume "\<not> P (entry_text (step P ev s))"
  with Edit have "\<not> P (entry_text (s\<lparr>entry_text := q, combo_active := a\<rparr>))" by simp
  then have "quiet (s\<lparr>entry_text := q, combo_active := a\<rparr>)
      (combo_text_changed P (s\<lparr>entry_text := q, combo_active := a\<rparr>))"
    by (rule quiet_combo_text_changed)
  with Edit show ?thesis by (simp add: quiet_def)
next
  case (Signal g)
  assume "\<not> P (entry_text (step P ev s))"
  then have r: "\<not> P (entry_text s)"
    using entry_text_step [of P ev s] Signal by simp
  show ?thesis unfolding Signal step.simps
    using r quiet_combo_text_changed [of P s] quiet_filter_changed [of P s]
      quiet_text_changed [of P s]
    by (cases g) (simp_all add: quiet_def)
next
  case (Set_text q)
  then show ?thesis using quiet_remove_timeout [of s] by (simp add: set_text_unfold quiet_def)
next
  case Changed
  assume "\<not> P (entry_text (step P ev s))"
  with Changed show ?thesis by (simp add: changed_def quiet_filter_changed)
next
  case (Dispatch i)
  assume "\<not> P (entry_text (step P ev s))"
  with Dispatch show ?thesis by (simp add: quiet_dispatch)
next
  case Destroy
  then show ?thesis by (simp add: quiet_remove_timeout)
qed (simp_all add: quiet_def)

lemmas eval_defs = searchbar_init_def combo_text_changed_def text_changed_def filter_changed_def
  remove_timeout_def source_remove_def source_attach_def idle_add_def timeout_add_def
  dispatch_def timeout_def no_paren_def Let_def changed_def set_text_def inhibit_def
  uninhibit_def entry_set_text_def save_search_def combo_prepend_text_def combo_write_def
  py_strip_def py_isspace_def
  typed_paren_def typed_a_def

lemma combo_model_remove_timeout [simp]: "combo_model (remove_timeout s) = combo_model s"
  by (simp add: remove_timeout_def source_remove_def split: option.splits)

lemma saved_remove_timeout [simp]: "saved_queries (remove_timeout s) = saved_queries s"
  by (simp add: remove_timeout_def source_remove_def split: option.splits)

lemma combo_model_filter_changed [simp]: "combo_model (filter_changed P s) = combo_model s"
  by (simp add: filter_changed_unfold)

lemma saved_filter_changed [simp]: "saved_queries (filter_changed P s) = saved_queries s"
  by (simp add: filter_changed_unfold)

lemma eager_filter_changed [simp]: "eager_search (filter_changed P s) = eager_search s"
  by (simp add: filter_changed_unfold)

lemma combo_model_text_changed [simp]: "combo_model (text_changed P s) = combo_model s"
  by (simp add: text_changed_unfold)

lemma saved_text_changed [simp]: "saved_queries (text_changed P s) = saved_queries s"
  by (simp add: text_changed_unfold)

lemma combo_model_dispatch [simp]: "combo_model (dispatch P i s) = combo_model s"
  by (simp add: dispatch_unfold split: option.splits source.splits)

lemma saved_dispatch [simp]: "saved_queries (dispatch P i s) = saved_queries s"
  by (simp add: dispatch_unfold split: option.splits source.splits)

lemma history_step_other:
  "ev \<noteq> Signal Sig_activate \<Longrightarrow> ev \<noteq> Signal Sig_focus_out \<Longrightarrow>
   combo_model (step P ev s) = combo_model s \<and> saved_queries (step P ev s) = saved_queries s"
proof (cases ev)
  case (Signal g)
  assume "ev \<noteq> Signal Sig_activate" "ev \<noteq> Signal Sig_focus_out"
  with Signal show ?thesis by (cases g) (simp_all add: combo_text_changed_def)
qed (simp_all add: combo_text_changed_def set_text_unfold changed_def)

lemma emitted_filter_changed [simp]: "emitted (filter_changed P s) = emitted s"
  by (simp add: filter_changed_unfold)

lemma emitted_text_changed [simp]: "emitted (text_changed P s) = emitted s"
  by (simp add: text_changed_unfold)

lemma emitted_combo_text_changed [simp]: "emitted (combo_text_changed P s) = emitted s"
  by (simp add: combo_text_changed_def)

lemma wf_edit_sources:
  assumes "well_formed s"
  shows "sources (remove_timeout (s\<lparr>entry_text := q, combo_active := a\<rparr>)) = []"
proof -
  from assms have "pending_tracked (s\<lparr>entry_text := q, combo_active := a\<rparr>)"
    by (simp add: well_formed_def pending_tracked_iff)
  then show ?thesis by (rule tracked_remove_timeout)
qed

lemma timer_not_due:
  assumes "sources s = [(n, Timeout_filter due)]" and "clock s < due"
  shows "dispatch P i s = s"
  using assms by (simp add: dispatch_def)

lemma eager_dispatch [simp]: "eager_search (dispatch P i s) = eager_search s"
  by (simp add: dispatch_unfold filter_changed_unfold split: option.splits source.splits)

lemma off_edit: "off_phase base s \<Longrightarrow> off_phase base (step P (Edit q (- 1)) s)"
proof -
  assume a: "off_phase base s"
  then have "well_formed s" by (simp add: off_phase_def)
  then have "well_formed (step P (Edit q (- 1)) s)" by (rule wf_step)
  moreover from a have "text_changed P (s\<lparr>entry_text := q, combo_active := - 1\<rparr>) =
      s\<lparr>entry_text := q, combo_active := - 1\<rparr>"
    by (simp add: off_phase_def text_changed_unfold)
  ultimately show ?thesis using a by (simp add: off_phase_def combo_text_changed_def)
qed

lemma off_tick: "off_phase base s \<Longrightarrow> off_phase base (step P (Tick d) s)"
proof -
  assume a: "off_phase base s"
  then have "well_formed s" by (simp add: off_phase_def)
  then have "well_formed (step P (Tick d) s)" by (rule wf_step)
  with a show ?thesis by (simp add: off_phase_def)
qed

lemma off_dispatch: "off_phase base s \<Longrightarrow> off_phase base (step P (Dispatch i) s)"
proof -
  assume a: "off_phase base s"
  then have wf: "well_formed s" and e: "\<not> eager_search s" by (simp_all add: off_phase_def)
  have wf': "well_formed (dispatch P i s)" using wf by (rule wf_dispatch)
  from wf consider "sources s = []" | p where "sources s = [p]"
    by (auto simp: well_formed_def pending_tracked_iff)
  then show ?thesis
  proof cases
    case 1
    then have "dispatch P i s = s" by (simp add: dispatch_def)
    with a show ?thesis by simp
  next
    case 2
    with a have em: "emitted s = base" by (simp add: off_phase_def)
    have "emitted (dispatch P i s) = base \<or>
        (sources (dispatch P i s) = [] \<and> (\<exists>x. emitted (dispatch P i s) = base @ [x]))"
      using 2 em by (cases p) (simp add: dispatch_def source_remove_def split: source.splits)
    with wf' e show ?thesis by (simp add: off_phase_def)
  qed
qed

lemma off_run:
  "spaced acc es \<Longrightarrow> unselected es \<Longrightarrow> off_phase base s \<Longrightarrow> off_phase base (run P es s)"
proof (induction acc es arbitrary: s rule: spaced.induct)
  case (2 acc q a es)
  then have "off_phase base (step P (Edit q (- 1)) s)" using off_edit by blast
  with 2 show ?case by simp
next
  case (3 acc d es)
  then have "off_phase base (step P (Tick d) s)" using off_tick by blast
  with 3 show ?case by simp
next
  case (4 acc i es)
  then have "off_phase base (step P (Dispatch i) s)" using off_dispatch by blast
  with 4 show ?case by simp
qed simp_all

lemma burst_at_most_one:
  assumes "well_formed s" and "spaced 0 es" and "unselected es"
  shows "\<exists>xs. emitted (run P (Edit q (- 1) # es) s) = emitted s @ xs \<and> length xs \<le> 1 \<and>
           (eager_search s \<longrightarrow> set xs \<subseteq> {last_text q es})"
proof (cases "eager_search s")
  case True
  from burst_emits_once [OF assms(1) True assms(2,3), of P q] True show ?thesis by auto
next
  case False
  with assms(1) have "off_phase (emitted s) s" by (simp add: off_phase_def)
  then have "off_phase (emitted s) (step P (Edit q (- 1)) s)" by (rule off_edit)
  then have "off_phase (emitted s) (run P es (step P (Edit q (- 1)) s))"
    by (rule off_run [OF assms(2,3)])
  with False show ?thesis by (auto simp: off_phase_def)
qed

lemma wf_changed_sources:
  assumes "well_formed s"
  shows "sources (changed P s) =
     (if P (entry_text s) then [(next_source_id s, Idle_emit (entry_text s))] else [])"
  using tracked_remove_timeout [of s] assms
  by (simp add: changed_def filter_changed_unfold well_formed_def)


lemma spin_ok_limit_init: "spin_ok (spin (limit_w (limit_searchbar_init sl e h)))"
  by (simp add: limit_searchbar_init_def spin_ok_def limit_box_init_def set_increments_def
      set_range_def set_numeric_def spin_button_new_def clamp_def)

lemmas limit_eval_defs = limit_def limit_value_def weighted_def toggle_limit_widgets_def
  limit_searchbar_init_def limit_box_init_def set_increments_def set_range_def set_numeric_def
  set_value_def spin_button_new_def clamp_def get_value_as_int_def take_songs_def limit_changed_def





subsection \<open>The emitted queries\<close>

text \<open>
  C1. Every \<open>query-changed\<close> emission of a search bar, whatever happens to it after
  \<open>__init__\<close>, carries a text that \<open>Query.is_parsable\<close> accepts. And whenever the entry
  text is one the parser rejects, no event attaches a source: the id counter of the main
  loop stays and the pending sources are among those pending before. This holds for the
  filter change, the text change and the public \<open>changed()\<close>, which then do no more than
  \<open>__remove_timeout\<close>.
\<close>

theorem query_changed_parsable:
  "list_all P (emitted (run P es (searchbar_init e h))) \<and>
   (\<not> P (entry_text (step P ev s)) \<longrightarrow>
      next_source_id (step P ev s) = next_source_id s \<and>
      set (sources (step P ev s)) \<subseteq> set (sources s)) \<and>
   (\<not> P (entry_text s) \<longrightarrow>
      filter_changed P s = remove_timeout s \<and> changed P s = remove_timeout s \<and>
      (text_changed P s = remove_timeout s \<or> text_changed P s = s))"
proof -
  have "sound P (run P es (searchbar_init e h))"
    by (rule sound_run [OF sound_init])
  then have "list_all P (emitted (run P es (searchbar_init e h)))"
    by (simp add: sound_def)
  moreover have "\<not> P (entry_text (step P ev s)) \<longrightarrow>
      next_source_id (step P ev s) = next_source_id s \<and>
      set (sources (step P ev s)) \<subseteq> set (sources s)"
    using quiet_step [of P ev s] by (simp add: quiet_def)
  moreover have "\<not> P (entry_text s) \<longrightarrow>
      filter_changed P s = remove_timeout s \<and> changed P s = remove_timeout s \<and>
      (text_changed P s = remove_timeout s \<or> text_changed P s = s)"
    using text_changed_rejected [of P s] by (simp add: changed_def filter_changed_rejected)
  ultimately show ?thesis by blast
qed

theorem query_changed_parsable_witness:
  "emitted (run no_paren [Edit [97] (- 1), Tick 400, Dispatch 1, Dispatch 2]
      (searchbar_init True [])) = [[97]] \<and>
   no_paren [97] \<and>
   \<not> no_paren (entry_text (step no_paren (Signal Sig_clear) (typed_paren True))) \<and>
   next_source_id (step no_paren (Signal Sig_clear) (typed_paren True)) = 1 \<and>
   sources (step no_paren (Signal Sig_clear) (typed_paren True)) = [] \<and>
   \<not> no_paren (entry_text (typed_paren True)) \<and>
   changed no_paren (typed_paren True) = remove_timeout (typed_paren True) \<and>
   text_changed no_paren (typed_paren True) = remove_timeout (typed_paren True)"
  using query_changed_parsable [of no_paren "[Edit [97] (- 1), Tick 400, Dispatch 1, Dispatch 2]"
      True "[]" "Signal Sig_clear" "typed_paren True"]
  by (simp add: eval_defs)

subsection \<open>Saving the query\<close>

text \<open>
  C2, as the code has it. \<open>__save_search\<close> tests the \<open>eager_search\<close> flag only when the
  signal passes extra arguments, that is on \<open>focus-out-event\<close>: with the flag off a
  focus-out changes nothing, and of all events only an activation, or a focus-out with
  the flag on, changes the history or its file. An activation saves a non-empty
  accepted text whether the flag is on or off; a focus-out saves it when the flag is on.
\<close>

theorem history_gate_focus_out:
  "(args \<noteq> [] \<and> \<not> eager_search s \<longrightarrow> save_search P args s = s) \<and>
   (combo_model (step P ev s) \<noteq> combo_model s \<or> saved_queries (step P ev s) \<noteq> saved_queries s \<longrightarrow>
      ev = Signal Sig_activate \<or> (ev = Signal Sig_focus_out \<and> eager_search s)) \<and>
   (py_strip (entry_text s) \<noteq> [] \<and> P (py_strip (entry_text s)) \<longrightarrow>
      saved_queries (step P (Signal Sig_activate) s) = py_strip (entry_text s) # combo_model s \<and>
      (eager_search s \<longrightarrow>
         saved_queries (step P (Signal Sig_focus_out) s) = py_strip (entry_text s) # combo_model s))"
proof -
  have a: "args \<noteq> [] \<and> \<not> eager_search s \<longrightarrow> save_search P args s = s"
    by (simp add: save_search_unfold)
  have b: "combo_model (step P ev s) \<noteq> combo_model s \<or> saved_queries (step P ev s) \<noteq> saved_queries s \<longrightarrow>
      ev = Signal Sig_activate \<or> (ev = Signal Sig_focus_out \<and> eager_search s)"
  proof (cases "ev = Signal Sig_focus_out")
    case True
    then show ?thesis by (simp add: save_search_unfold)
  next
    case False
    then show ?thesis using history_step_other [of ev P s] by blast
  qed
  have c: "py_strip (entry_text s) \<noteq> [] \<and> P (py_strip (entry_text s)) \<longrightarrow>
      saved_queries (step P (Signal Sig_activate) s) = py_strip (entry_text s) # combo_model s \<and>
      (eager_search s \<longrightarrow>
         saved_queries (step P (Signal Sig_focus_out) s) = py_strip (entry_text s) # combo_model s)"
    by (simp add: save_search_unfold)
  from a b c show ?thesis by blast
qed

theorem history_gate_focus_out_witness:
  "[Gdk_event] \<noteq> [] \<and> \<not> eager_search (typed_a False) \<and>
   save_search no_paren [Gdk_event] (typed_a False) = typed_a False \<and>
   saved_queries (step no_paren (Signal Sig_focus_out) (typed_a True)) \<noteq> saved_queries (typed_a True) \<and>
   eager_search (typed_a True) \<and>
   py_strip (entry_text (typed_a True)) = [97] \<and> no_paren [97] \<and>
   saved_queries (step no_paren (Signal Sig_activate) (typed_a True)) = [[97]] \<and>
   saved_queries (step no_paren (Signal Sig_focus_out) (typed_a True)) = [[97]]"
  using history_gate_focus_out [of "[Gdk_event]" "typed_a False" no_paren "Signal Sig_focus_out"]
    history_gate_focus_out [of "[Gdk_event]" "typed_a True" no_paren "Signal Sig_focus_out"]
  by (simp add: eval_defs)

text \<open>
  With the flag off, activating the entry that holds \<open> a \<close> puts \<open>a\<close> in the history
  and in the file: persistence is not gated by the flag on every path.
\<close>

theorem history_gate_counterexample:
  "\<not> eager_search (typed_a False) \<and>
   combo_model (step no_paren (Signal Sig_activate) (typed_a False)) = [[97]] \<and>
   saved_queries (step no_paren (Signal Sig_activate) (typed_a False)) = [[97]] \<and>
   saved_queries (typed_a False) = []"
  by (simp add: eval_defs)

text \<open>
  C4. On activation the stripped entry text is put in front of the history and the
  history is written to the file exactly when the stripped text is non-empty and
  \<open>Query.is_parsable\<close> accepts it; otherwise the history and the file stay as they were.
\<close>

theorem activation_persists_query:
  "(py_strip (entry_text s) \<noteq> [] \<and> P (py_strip (entry_text s)) \<longrightarrow>
      combo_model (step P (Signal Sig_activate) s) = py_strip (entry_text s) # combo_model s \<and>
      saved_queries (step P (Signal Sig_activate) s) = py_strip (entry_text s) # combo_model s) \<and>
   (\<not> (py_strip (entry_text s) \<noteq> [] \<and> P (py_strip (entry_text s))) \<longrightarrow>
      combo_model (step P (Signal Sig_activate) s) = combo_model s \<and>
      saved_queries (step P (Signal Sig_activate) s) = saved_queries s) \<and>
   save_search P [] s =
     (if py_strip (entry_text s) \<noteq> [] \<and> P (py_strip (entry_text s))
      then s\<lparr>combo_model := py_strip (entry_text s) # combo_model s,
             saved_queries := py_strip (entry_text s) # combo_model s\<rparr>
      else s)"
  by (simp add: save_search_unfold)

theorem activation_persists_query_witness:
  "py_strip (entry_text (typed_a False)) = [97] \<and> no_paren [97] \<and>
   combo_model (step no_paren (Signal Sig_activate) (typed_a False)) = [[97]] \<and>
   saved_queries (step no_paren (Signal Sig_activate) (typed_a False)) = [[97]] \<and>
   \<not> no_paren (py_strip (entry_text (typed_paren True))) \<and>
   combo_model (step no_paren (Signal Sig_activate) (typed_paren True)) = [] \<and>
   saved_queries (step no_paren (Signal Sig_activate) (typed_paren True)) = [] \<and>
   py_strip (entry_text (searchbar_init True [[98]])) = [] \<and>
   combo_model (step no_paren (Signal Sig_activate) (searchbar_init True [[98]])) = [[98]]"
  using activation_persists_query [of "typed_a False" no_paren]
    activation_persists_query [of "typed_paren True" no_paren]
    activation_persists_query [of "searchbar_init True [[98]]" no_paren]
  by (simp add: eval_defs)

subsection \<open>Debouncing\<close>

text \<open>
  C3. In a search bar reached from \<open>__init__\<close> with \<open>eager_search\<close> on, an edit with no row
  selected that leaves an accepted text schedules one timeout source due \<open>timeout\<close> =
  400 ms later and nothing else: nothing is emitted by the edit, running the main loop
  less than 400 ms later changes nothing, and once 400 ms have passed the timeout runs
  \<open>__filter_changed\<close>, whose idle source then emits the text. The \<open>backspace\<close> signal
  schedules the same timeout for the text of the entry.
\<close>

theorem keystroke_debounced:
  assumes "s = run P pre (searchbar_init e h)" and "eager_search s" and "P q"
  shows "timeout = 400 \<and>
     sources (step P (Edit q (- 1)) s) = [(next_source_id s, Timeout_filter (clock s + 400))] \<and>
     refill_id (step P (Edit q (- 1)) s) = Some (next_source_id s) \<and>
     emitted (step P (Edit q (- 1)) s) = emitted s \<and>
     (\<forall>d i. d < 400 \<longrightarrow>
        step P (Dispatch i) (step P (Tick d) (step P (Edit q (- 1)) s)) =
        step P (Tick d) (step P (Edit q (- 1)) s)) \<and>
     (\<forall>d. 400 \<le> d \<longrightarrow>
        emitted (run P [Edit q (- 1), Tick d, Dispatch (next_source_id s),
                        Dispatch (Suc (next_source_id s))] s) = emitted s @ [q]) \<and>
     (combo_active s = - 1 \<and> P (entry_text s) \<longrightarrow>
        sources (handle_signal P Sig_backspace s) =
          [(next_source_id s, Timeout_filter (clock s + 400))] \<and>
        emitted (handle_signal P Sig_backspace s) = emitted s)"
proof -
  let ?s' = "step P (Edit q (- 1)) s"
  from assms(1) have wf: "well_formed s" by (simp add: well_formed_reachable)
  then have b: "sig_blocked s = 0" by (simp add: well_formed_def)
  note rm = wf_edit_sources [OF wf, where q = q and a = "- 1"]
  have src: "sources ?s' = [(next_source_id s, Timeout_filter (clock s + 400))]"
    using assms(2,3) b rm by (simp add: combo_text_changed_def text_changed_unfold timeout_def)
  have rid: "refill_id ?s' = Some (next_source_id s)"
    using assms(2,3) b by (simp add: combo_text_changed_def text_changed_unfold)
  have ck: "clock ?s' = clock s"
    using assms(2,3) b by (simp add: combo_text_changed_def text_changed_unfold)
  have tx: "entry_text ?s' = q"
    by (simp add: entry_text_step)
  have nx: "next_source_id ?s' = Suc (next_source_id s)"
    using assms(2,3) b by (simp add: combo_text_changed_def text_changed_unfold)
  have em: "emitted ?s' = emitted s"
    by simp
  have early: "step P (Dispatch i) (step P (Tick d) ?s') = step P (Tick d) ?s'" if "d < 400" for d i
  proof -
    have "sources (step P (Tick d) ?s') = [(next_source_id s, Timeout_filter (clock s + 400))]"
      using src by simp
    moreover have "clock (step P (Tick d) ?s') < clock s + 400"
      using ck that by simp
    ultimately show ?thesis
      unfolding step.simps(7) by (rule timer_not_due)
  qed
  have late: "emitted (run P [Edit q (- 1), Tick d, Dispatch (next_source_id s),
                        Dispatch (Suc (next_source_id s))] s) = emitted s @ [q]" if "400 \<le> d" for d
  proof -
    let ?t = "step P (Tick d) ?s'"
    have t: "sources ?t = [(next_source_id s, Timeout_filter (clock s + 400))]"
      "refill_id ?t = Some (next_source_id s)" "clock ?t = clock s + d" "entry_text ?t = q"
      "next_source_id ?t = Suc (next_source_id s)" "emitted ?t = emitted s"
      using src rid ck tx nx em by simp_all
    let ?u = "step P (Dispatch (next_source_id s)) ?t"
    have u: "sources ?u = [(Suc (next_source_id s), Idle_emit q)] \<and> emitted ?u = emitted s"
      using t that assms(3)
      by (simp add: dispatch_def source_remove_def filter_changed_unfold sources_remove_timeout)
    then have "emitted (step P (Dispatch (Suc (next_source_id s))) ?u) = emitted s @ [q]"
      by (simp add: dispatch_def source_remove_def)
    then show ?thesis by simp
  qed
  have bs: "combo_active s = - 1 \<and> P (entry_text s) \<longrightarrow>
        sources (handle_signal P Sig_backspace s) =
          [(next_source_id s, Timeout_filter (clock s + 400))] \<and>
        emitted (handle_signal P Sig_backspace s) = emitted s"
    using assms(2) wf tracked_remove_timeout [of s]
    by (simp add: text_changed_unfold timeout_def well_formed_def)
  from src rid em early late bs show ?thesis by (simp add: timeout_def)
qed

theorem keystroke_debounced_witness:
  "eager_search (run no_paren [] (searchbar_init True [])) \<and> no_paren [97] \<and>
   sources (step no_paren (Edit [97] (- 1)) (searchbar_init True [])) = [(1, Timeout_filter 400)] \<and>
   emitted (step no_paren (Edit [97] (- 1)) (searchbar_init True [])) = [] \<and>
   (399::nat) < 400 \<and>
   step no_paren (Dispatch 1) (step no_paren (Tick 399) (step no_paren (Edit [97] (- 1)) (searchbar_init True []))) =
     step no_paren (Tick 399) (step no_paren (Edit [97] (- 1)) (searchbar_init True [])) \<and>
   (400::nat) \<le> 400 \<and>
   emitted (run no_paren [Edit [97] (- 1), Tick 400, Dispatch 1, Dispatch 2] (searchbar_init True [])) = [[97]] \<and>
   combo_active (run no_paren [] (searchbar_init True [])) = - 1 \<and>
   no_paren (entry_text (run no_paren [] (searchbar_init True []))) \<and>
   sources (handle_signal no_paren Sig_backspace (run no_paren [] (searchbar_init True []))) =
     [(1, Timeout_filter 400)]"
  using keystroke_debounced [of "run no_paren [] (searchbar_init True [])" no_paren "[]" True "[]" "[97]"]
  by (simp add: eval_defs)

text \<open>
  C6, as the code has it. In every state reached from \<open>__init__\<close> at most one source is
  pending and \<open>self.__refill_id\<close> holds its id, since a handler attaches a source only
  after \<open>__remove_timeout\<close>. A burst of edits with no row selected, each less than
  \<open>timeout\<close> ms after the one before, adds at most one emission to those before the
  burst; with \<open>eager_search\<close> on that emission carries the text of the last edit.
\<close>

theorem debounce_single_pending:
  assumes "s = run P pre (searchbar_init e h)" and "spaced 0 es" and "unselected es"
  shows "pending_tracked s \<and> length (sources s) \<le> 1 \<and>
     sources (filter_changed P s) =
       sources (remove_timeout s) @
       (if P (entry_text s) then [(next_source_id s, Idle_emit (entry_text s))] else []) \<and>
     (combo_active s = - 1 \<and> eager_search s \<longrightarrow>
        sources (text_changed P s) =
          sources (remove_timeout s) @
          (if P (entry_text s) then [(next_source_id s, Timeout_filter (clock s + timeout))]
           else [])) \<and>
     (\<exists>xs. emitted (run P (Edit q (- 1) # es) s) = emitted s @ xs \<and> length xs \<le> 1 \<and>
           (eager_search s \<longrightarrow> set xs \<subseteq> {last_text q es}))"
proof -
  from assms(1) have wf: "well_formed s" by (simp add: well_formed_reachable)
  then have pt: "pending_tracked s" by (simp add: well_formed_def)
  then have len: "length (sources s) \<le> 1" by (auto simp: pending_tracked_iff)
  have fc: "sources (filter_changed P s) =
       sources (remove_timeout s) @
       (if P (entry_text s) then [(next_source_id s, Idle_emit (entry_text s))] else [])"
    by (simp add: filter_changed_unfold)
  have tc: "combo_active s = - 1 \<and> eager_search s \<longrightarrow>
        sources (text_changed P s) =
          sources (remove_timeout s) @
          (if P (entry_text s) then [(next_source_id s, Timeout_filter (clock s + timeout))]
           else [])"
    by (simp add: text_changed_unfold)
  from pt len fc tc burst_at_most_one [OF wf assms(2,3), of P q] show ?thesis by blast
qed

theorem debounce_single_pending_witness:
  "spaced 0 [Tick 399, Dispatch 2, Edit [97, 98, 99] (- 1), Tick 400, Dispatch 3, Dispatch 4] \<and>
   unselected [Tick 399, Dispatch 2, Edit [97, 98, 99] (- 1), Tick 400, Dispatch 3, Dispatch 4] \<and>
   eager_search (run no_paren [Edit [97] (- 1)] (searchbar_init True [])) \<and>
   combo_active (run no_paren [Edit [97] (- 1)] (searchbar_init True [])) = - 1 \<and>
   sources (run no_paren [Edit [97] (- 1)] (searchbar_init True [])) = [(1, Timeout_filter 400)] \<and>
   sources (text_changed no_paren (run no_paren [Edit [97] (- 1)] (searchbar_init True []))) =
     [(2, Timeout_filter 400)] \<and>
   last_text [97, 98]
     [Tick 399, Dispatch 2, Edit [97, 98, 99] (- 1), Tick 400, Dispatch 3, Dispatch 4] =
     [97, 98, 99] \<and>
   emitted (run no_paren [Edit [97] (- 1)] (searchbar_init True [])) = [] \<and>
   emitted (run no_paren
     (Edit [97, 98] (- 1) #
      [Tick 399, Dispatch 2, Edit [97, 98, 99] (- 1), Tick 400, Dispatch 3, Dispatch 4])
     (run no_paren [Edit [97] (- 1)] (searchbar_init True []))) = [[97, 98, 99]]"
  using debounce_single_pending [of "run no_paren [Edit [97] (- 1)] (searchbar_init True [])" no_paren
     "[Edit [97] (- 1)]" True "[]"
     "[Tick 399, Dispatch 2, Edit [97, 98, 99] (- 1), Tick 400, Dispatch 3, Dispatch 4]" "[97, 98]"]
  by (simp add: eval_defs)

text \<open>
  Edits that select rows of the dropdown are not debounced: two of them 10 ms apart
  give two emissions.
\<close>

theorem burst_with_selection_counterexample:
  "spaced 0 [Dispatch 1, Tick 10, Edit [98] 1, Dispatch 2] \<and>
   emitted (run no_paren (Edit [97] 0 # [Dispatch 1, Tick 10, Edit [98] 1, Dispatch 2])
     (searchbar_init True [[97], [98]])) = [[97], [98]]"
  by (simp add: eval_defs)

subsection \<open>The public methods\<close>

text \<open>
  C7. In a search bar reached from \<open>__init__\<close>, \<open>changed()\<close> leaves exactly one pending
  source, an idle emission of the current entry text, when \<open>Query.is_parsable\<close> accepts
  the text, and the main loop then emits that text; when the text is rejected nothing
  is pending after the call, so what was pending is cancelled, and no source is
  attached.
\<close>

theorem changed_schedules_iff_parsable:
  assumes "s = run P pre (searchbar_init e h)"
  shows "(P (entry_text s) \<longrightarrow>
       sources (changed P s) = [(next_source_id s, Idle_emit (entry_text s))] \<and>
       refill_id (changed P s) = Some (next_source_id s) \<and>
       emitted (dispatch P (next_source_id s) (changed P s)) = emitted s @ [entry_text s]) \<and>
     (\<not> P (entry_text s) \<longrightarrow>
       sources (changed P s) = [] \<and> refill_id (changed P s) = None \<and>
       next_source_id (changed P s) = next_source_id s \<and>
       (\<forall>i. dispatch P i (changed P s) = changed P s))"
proof -
  from assms have wf: "well_formed s" by (simp add: well_formed_reachable)
  note src = wf_changed_sources [OF wf, of P]
  have a: "P (entry_text s) \<longrightarrow>
       sources (changed P s) = [(next_source_id s, Idle_emit (entry_text s))] \<and>
       refill_id (changed P s) = Some (next_source_id s) \<and>
       emitted (dispatch P (next_source_id s) (changed P s)) = emitted s @ [entry_text s]"
    using src by (simp add: dispatch_def source_remove_def) (simp add: changed_def filter_changed_unfold)
  have b: "\<not> P (entry_text s) \<longrightarrow>
       sources (changed P s) = [] \<and> refill_id (changed P s) = None \<and>
       next_source_id (changed P s) = next_source_id s \<and>
       (\<forall>i. dispatch P i (changed P s) = changed P s)"
    using src by (simp add: dispatch_def) (simp add: changed_def filter_changed_unfold)
  from a b show ?thesis by blast
qed

theorem changed_schedules_iff_parsable_witness:
  "no_paren (entry_text (run no_paren [Edit [97] (- 1)] (searchbar_init True []))) \<and>
   sources (run no_paren [Edit [97] (- 1)] (searchbar_init True [])) = [(1, Timeout_filter 400)] \<and>
   sources (changed no_paren (run no_paren [Edit [97] (- 1)] (searchbar_init True []))) =
     [(2, Idle_emit [97])] \<and>
   emitted (dispatch no_paren 2 (changed no_paren (run no_paren [Edit [97] (- 1)] (searchbar_init True [])))) =
     [[97]] \<and>
   \<not> no_paren (entry_text (run no_paren [Edit [97] 0, Edit [40] (- 1)] (searchbar_init False []))) \<and>
   sources (changed no_paren (run no_paren [Edit [97] 0, Edit [40] (- 1)] (searchbar_init False []))) = [] \<and>
   sources (run no_paren [Edit [97] 0, Edit [40] (- 1)] (searchbar_init False [])) = [(1, Idle_emit [97])]"
  using changed_schedules_iff_parsable [of "run no_paren [Edit [97] (- 1)] (searchbar_init True [])"
      no_paren "[Edit [97] (- 1)]" True "[]"]
    changed_schedules_iff_parsable [of "run no_paren [Edit [97] 0, Edit [40] (- 1)] (searchbar_init False [])"
      no_paren "[Edit [97] 0, Edit [40] (- 1)]" False "[]"]
  by (simp add: eval_defs)




text \<open>
  C9. \<open>set_text(text)\<close> is \<open>__remove_timeout\<close> followed by the new entry text: for every
  text it emits nothing, attaches no source, clears \<open>self.__refill_id\<close>, and leaves the
  history, its file, the blocking of the handler and the configuration as they were.
  In a search bar reached from \<open>__init__\<close> nothing is pending after it.
\<close>

theorem set_text_frame:
  "set_text P q s = (remove_timeout s)\<lparr>entry_text := q\<rparr> \<and>
   entry_text (set_text P q s) = q \<and>
   emitted (set_text P q s) = emitted s \<and>
   next_source_id (set_text P q s) = next_source_id s \<and>
   set (sources (set_text P q s)) \<subseteq> set (sources s) \<and>
   refill_id (set_text P q s) = None \<and>
   combo_model (set_text P q s) = combo_model s \<and>
   saved_queries (set_text P q s) = saved_queries s \<and>
   sig_blocked (set_text P q s) = sig_blocked s \<and>
   eager_search (set_text P q s) = eager_search s \<and>
   (s = run P pre (searchbar_init e h) \<longrightarrow>
      sources (set_text P q s) = [] \<and> (\<forall>i. dispatch P i (set_text P q s) = set_text P q s))"
proof -
  have u: "set_text P q s = (remove_timeout s)\<lparr>entry_text := q\<rparr>"
    by (rule set_text_unfold)
  have sub: "set (sources (set_text P q s)) \<subseteq> set (sources s)"
    using sources_remove_timeout_subset [of s] by (simp add: u)
  have r: "sources (set_text P q s) = [] \<and> (\<forall>i. dispatch P i (set_text P q s) = set_text P q s)"
    if "s = run P pre (searchbar_init e h)"
  proof -
    from that have "well_formed s" by (simp add: well_formed_reachable)
    then have "sources (remove_timeout s) = []"
      by (simp add: well_formed_def tracked_remove_timeout)
    then have "sources (set_text P q s) = []" by (simp add: u)
    then show ?thesis by (simp add: dispatch_def)
  qed
  from sub r show ?thesis by (simp add: u)
qed

theorem set_text_frame_witness:
  "sources (run no_paren [Edit [97] (- 1)] (searchbar_init True [[98]])) = [(1, Timeout_filter 400)] \<and>
   set_text no_paren [97, 98] (run no_paren [Edit [97] (- 1)] (searchbar_init True [[98]])) =
     (searchbar_init True [[98]])\<lparr>entry_text := [97, 98], next_source_id := 2\<rparr> \<and>
   sources (set_text no_paren [97, 98] (run no_paren [Edit [97] (- 1)] (searchbar_init True [[98]]))) = [] \<and>
   dispatch no_paren 1 (set_text no_paren [97, 98] (run no_paren [Edit [97] (- 1)] (searchbar_init True [[98]]))) =
     set_text no_paren [97, 98] (run no_paren [Edit [97] (- 1)] (searchbar_init True [[98]]))"
  using set_text_frame [of no_paren "[97, 98]" "run no_paren [Edit [97] (- 1)] (searchbar_init True [[98]])"
      "[Edit [97] (- 1)]" True "[[98]]"]
  by (simp add: eval_defs)

subsection \<open>The limit widget\<close>

text \<open>
  C5. \<open>LimitSearchBarBox.limit(songs)\<close> returns \<open>songs\<close> when the limit widget is not
  visible, and \<open>limit_songs(songs, value, weighted)\<close>, with the integer value of the spin
  button and the state of the check button, when it is; so after
  \<open>toggle_limit_widgets\<close> with an inactive button it returns \<open>songs\<close>, and with an active
  one the limited songs.
\<close>

theorem limit_optional:
  "(\<not> limit_visible (limit_w b) \<longrightarrow> limit L b songs = songs) \<and>
   (limit_visible (limit_w b) \<longrightarrow>
      limit L b songs = L songs (get_value_as_int (spin (limit_w b))) (weight_active (limit_w b))) \<and>
   limit L (toggle_limit_widgets P False b) songs = songs \<and>
   limit L (toggle_limit_widgets P True b) songs =
      L songs (get_value_as_int (spin (limit_w b))) (weight_active (limit_w b))"
  by (simp add: limit_def limit_value_def weighted_def toggle_limit_widgets_def)

theorem limit_optional_witness:
  "\<not> limit_visible (limit_w (limit_searchbar_init False True [])) \<and>
   limit take_songs (limit_searchbar_init False True []) [1, 2, 3 :: nat] = [1, 2, 3] \<and>
   limit_visible (limit_w (limit_run no_paren [Spin_input 2, Toggle_limit True] (limit_searchbar_init False True []))) \<and>
   get_value_as_int (spin (limit_w (limit_run no_paren [Spin_input 2, Toggle_limit True] (limit_searchbar_init False True [])))) = 2 \<and>
   limit take_songs (limit_run no_paren [Spin_input 2, Toggle_limit True] (limit_searchbar_init False True [])) [1, 2, 3 :: nat] = [1, 2]"
  using limit_optional [of "limit_searchbar_init False True []" take_songs "[1, 2, 3 :: nat]" no_paren]
    limit_optional [of "limit_run no_paren [Spin_input 2, Toggle_limit True] (limit_searchbar_init False True [])"
       take_songs "[1, 2, 3 :: nat]" no_paren]
  by (simp add: limit_eval_defs eval_defs)

text \<open>
  C10. Whatever happens to a \<open>LimitSearchBarBox\<close> after \<open>__init__\<close>, its spin button is
  numeric with range 0 to 9999 and \<open>Limit.value\<close> is an integer from 0 to 9999; this is
  the count \<open>limit\<close> passes to \<open>limit_songs\<close>.
\<close>

theorem limit_count_in_range:
  assumes "b = limit_run P es (limit_searchbar_init sl e h)"
  shows "numeric (spin (limit_w b)) \<and> lower (spin (limit_w b)) = 0 \<and> upper (spin (limit_w b)) = 9999 \<and>
     0 \<le> limit_value (limit_w b) \<and> limit_value (limit_w b) \<le> 9999 \<and>
     (limit_visible (limit_w b) \<longrightarrow>
        limit L b songs = L songs (limit_value (limit_w b)) (weighted (limit_w b)))"
proof -
  have "spin_ok (spin (limit_w b))"
    unfolding assms by (rule spin_ok_run [OF spin_ok_limit_init])
  then show ?thesis
    using spin_ok_int [of "spin (limit_w b)"] by (simp add: spin_ok_def limit_value_def limit_def)
qed

theorem limit_count_in_range_witness:
  "limit_value (limit_w (limit_run no_paren [Spin_input 123456, Show_all] (limit_searchbar_init True True []))) = 9999 \<and>
   limit_visible (limit_w (limit_run no_paren [Spin_input 123456, Show_all] (limit_searchbar_init True True []))) \<and>
   limit take_songs (limit_run no_paren [Spin_input 123456, Show_all] (limit_searchbar_init True True [])) [1, 2, 3 :: nat] = [1, 2, 3] \<and>
   limit_value (limit_w (limit_run no_paren [Spin_input (- 5)] (limit_searchbar_init True True []))) = 0 \<and>
   limit_value (limit_w (limit_run no_paren [Spin_input (3 / 2)] (limit_searchbar_init True True []))) = 2"
  using limit_count_in_range [of "limit_run no_paren [Spin_input 123456, Show_all] (limit_searchbar_init True True [])"
      no_paren "[Spin_input 123456, Show_all]" True True "[]" take_songs "[1, 2, 3 :: nat]"]
  by (simp add: limit_eval_defs eval_defs)

end
